theory Spec2Isabelle
  imports Complex_Main
begin

section \<open>The case-study network of \<open>IEEE_PES_GTD_case_study.py\<close>\<close>

text \<open>
  The script has one function, \<open>test_case4\<close>. It takes the CIGRE medium-voltage template
  network of pandapower, edits some of its tables and attaches a table \<open>flexibility\<close> with
  one row per flexibility providing unit (FPU).

  Two things the function uses live outside the repository and are parameters here:
  \<^item> the template network returned by \<open>pn.create_cigre_network_mv(with_der="pv_wind")\<close>, and
  \<^item> numpy's global random generator (\<open>np.random.seed\<close>, \<open>np.random.random\<close>), given by
    the state a seed produces and by the function drawing one number from a state.

  Numbers are modelled as reals with exact arithmetic; the code computes with IEEE doubles.
  Assignments through a column (\<open>net.sgen['p_mw'].iloc[:-1] *= 30\<close> and the like) write
  into the table, as they did in the pandas the script was written for.
\<close>

subsection \<open>Errors\<close>

datatype error = ValueError | KeyError | TypeError | AttributeError | NonUniqueLabel

definition and_then :: "error + 'a \<Rightarrow> ('a \<Rightarrow> error + 'b) \<Rightarrow> error + 'b" where
  "and_then m f = (case m of Inl e \<Rightarrow> Inl e | Inr x \<Rightarrow> f x)"

fun traverse :: "('a \<Rightarrow> error + 'b) \<Rightarrow> 'a list \<Rightarrow> error + 'b list" where
  "traverse f [] = Inr []"
| "traverse f (x # xs) =
     and_then (f x) (\<lambda>y. and_then (traverse f xs) (\<lambda>ys. Inr (y # ys)))"

subsection \<open>Tables\<close>

text \<open>A pandas table keeps its index labels beside its rows, in order.\<close>

type_synonym 'r table = "(nat \<times> 'r) list"

text \<open>A cell of a freshly created frame is missing (NaN) until it is assigned.\<close>

type_synonym 'a column = "'a option list"

record device_row =
  bus :: nat
  p_mw :: real
  q_mvar :: real

record load_row = device_row +
  controllable :: bool

record bus_row =
  max_vm_pu :: real
  min_vm_pu :: real

record line_row =
  max_loading_percent :: real
  c_nf_per_km :: real

record net =
  net_switch :: "bool table"
  net_bus :: "bus_row table"
  net_line :: "line_row table"
  net_load :: "load_row table"
  net_sgen :: "device_row table"

text \<open>A Python dict with float values, in insertion order; \<open>None\<close> is NaN.\<close>

type_synonym info = "(string \<times> real option) list"

record fpu_table =
  element :: "nat column"
  et :: "string column"
  up_quantity :: "real column"
  up_cost :: "real column"
  down_quantity :: "real column"
  down_cost :: "real column"
  FPU_type :: "string column"
  FPU_info :: "info column"
  p_setpoint :: "real list"
  q_setpoint :: "real list"
  bus_fpu :: "nat list"

record net_flex = net +
  flexibility :: fpu_table

definition nrows :: "fpu_table \<Rightarrow> nat" where
  "nrows t = length (element t)"

subsection \<open>The pandas operations the function uses\<close>

text \<open>\<open>DataFrame(columns=..., index=list(range(n)))\<close>: every cell missing.\<close>

definition new_column :: "nat \<Rightarrow> 'a column" where
  "new_column n = replicate n None"

text \<open>
  Label slices of a frame whose labels are \<open>0 .. n-1\<close>, as half-open position ranges:
  \<open>.loc[:k]\<close> takes the labels up to and including \<open>k\<close>, \<open>.loc[k:]\<close> those from \<open>k\<close> on.
\<close>

definition loc_upto :: "nat \<Rightarrow> int \<Rightarrow> nat \<times> nat" where
  "loc_upto n k = (0, min n (nat (k + 1)))"

definition loc_from :: "nat \<Rightarrow> nat \<Rightarrow> nat \<times> nat" where
  "loc_from n k = (min n k, n)"

text \<open>Assigning a list to a slice fails when the lengths differ; a scalar is broadcast.\<close>

definition set_list :: "'a column \<Rightarrow> nat \<times> nat \<Rightarrow> 'a list \<Rightarrow> error + 'a column" where
  "set_list col sl vs =
     (if length vs = snd sl - fst sl
      then Inr (take (fst sl) col @ map Some vs @ drop (snd sl) col)
      else Inl ValueError)"

definition set_scalar :: "'a column \<Rightarrow> nat \<times> nat \<Rightarrow> 'a \<Rightarrow> 'a column" where
  "set_scalar col sl v =
     take (fst sl) col @ replicate (snd sl - fst sl) (Some v) @ drop (snd sl) col"

text \<open>
  \<open>table.loc[k]\<close>: the row labelled \<open>k\<close>. A missing label raises \<open>KeyError\<close>. For a label
  that occurs more than once pandas hands back a sub-table instead of a row, and the
  column built from it is no longer a column of numbers; the model stops there.
\<close>

definition loc :: "'r table \<Rightarrow> nat \<Rightarrow> error + 'r" where
  "loc tbl k =
     (case filter (\<lambda>(i, r). i = k) tbl of
        [] \<Rightarrow> Inl KeyError
      | [(i, r)] \<Rightarrow> Inr r
      | _ \<Rightarrow> Inl NonUniqueLabel)"

text \<open>\<open>np.round(x, 3)\<close>: scale by 1000, round half to even, scale back.\<close>

definition rint :: "real \<Rightarrow> int" where
  "rint x =
     (let f = \<lfloor>x\<rfloor>; d = x - of_int f
      in if d < 1 / 2 then f else if 1 / 2 < d then f + 1
         else if even f then f else f + 1)"

definition round3 :: "real \<Rightarrow> real" where
  "round3 x = of_int (rint (x * 1000)) / 1000"

subsection \<open>The random generator\<close>

record 'g generator =
  seed :: "nat \<Rightarrow> 'g"
  next_double :: "'g \<Rightarrow> real \<times> 'g"

text \<open>\<open>np.random.random(n)\<close>: \<open>n\<close> draws, one after the other, from the global state.\<close>

fun np_random :: "'g generator \<Rightarrow> nat \<Rightarrow> 'g \<Rightarrow> real list \<times> 'g" where
  "np_random G 0 g = ([], g)"
| "np_random G (Suc n) g =
     (case next_double G g of (x, g1) \<Rightarrow>
        (case np_random G n g1 of (xs, g2) \<Rightarrow> (x # xs, g2)))"

subsection \<open>\<open>test_case4\<close>\<close>

text \<open>Line 22: the flags written into \<open>net.load['controllable']\<close>.\<close>

definition controllable_flags :: "bool list" where
  "controllable_flags =
     [True, False, False, False, False, False, False, False, True, False, False, False, False,
      False, False, False, True, True]"

text \<open>Assigning a list as a column fails unless it has one value per row.\<close>

definition set_controllable :: "load_row table \<Rightarrow> bool list \<Rightarrow> error + load_row table" where
  "set_controllable ld flags =
     (if length flags = length ld
      then Inr (map (\<lambda>((i, r), c). (i, r\<lparr>controllable := c\<rparr>)) (zip ld flags))
      else Inl ValueError)"

text \<open>Line 19: \<open>iloc[:-1] *= 30\<close> scales every row but the last.\<close>

definition scale_all_but_last :: "device_row table \<Rightarrow> device_row table" where
  "scale_all_but_last sg =
     map (\<lambda>(i, r). (i, r\<lparr>p_mw := p_mw r * 30\<rparr>)) (take (length sg - 1) sg)
     @ drop (length sg - 1) sg"

text \<open>
  Lines 58-59: \<open>cos(arctan(q / p))\<close>. numpy divides by zero without raising: the quotient
  is infinite for \<open>q \<noteq> 0\<close> (the angle is a right angle, whose cosine is 0 up to rounding)
  and NaN for \<open>q = 0\<close>.
\<close>

definition power_factor :: "real \<Rightarrow> real \<Rightarrow> real option" where
  "power_factor q p =
     (if p = 0 then (if q = 0 then None else Some 0)
      else Some (cos (arctan (q / p))))"

text \<open>
  \<open>getattr(net, et)\<close>, for the two table names the function writes into the \<open>et\<close> column.
  Only the columns both tables have are read from the result.
\<close>

definition as_device :: "'a device_row_scheme \<Rightarrow> device_row" where
  "as_device r = \<lparr>bus = bus r, p_mw = p_mw r, q_mvar = q_mvar r\<rparr>"

definition getattr_net :: "'a net_scheme \<Rightarrow> string \<Rightarrow> error + device_row table" where
  "getattr_net n a =
     (if a = ''load'' then Inr (map (\<lambda>(i, r). (i, as_device r)) (net_load n))
      else if a = ''sgen'' then Inr (net_sgen n)
      else Inl AttributeError)"

text \<open>
  Lines 92, 98 and 105: the function applied to each row \<open>x\<close> of the flexibility table,
  \<open>getattr(net, x['et']).loc[x['element']][col]\<close>. A missing \<open>et\<close> is not a string.
\<close>

definition device_cell :: "'a net_scheme \<Rightarrow> (device_row \<Rightarrow> 'v) \<Rightarrow> string option \<times> nat option \<Rightarrow> error + 'v" where
  "device_cell n col x =
     (case x of
        (None, e) \<Rightarrow> Inl TypeError
      | (Some a, None) \<Rightarrow> and_then (getattr_net n a) (\<lambda>t. Inl KeyError)
      | (Some a, Some e) \<Rightarrow>
          and_then (getattr_net n a) (\<lambda>t. and_then (loc t e) (\<lambda>r. Inr (col r))))"

text \<open>Lines 95 and 101: \<open>column[et == 'load'] *= -1\<close>.\<close>

definition negate_loads :: "string column \<Rightarrow> real list \<Rightarrow> real list" where
  "negate_loads ets vs =
     map (\<lambda>(a, v). if a = Some ''load'' then v * (- 1) else v) (zip ets vs)"

text \<open>
  The function itself. It takes the template network and the state of the global random
  generator, and returns the network with its flexibility table and the generator's new
  state, or the exception that stops it.
\<close>

definition test_case4 :: "'g generator \<Rightarrow> net \<Rightarrow> 'g \<Rightarrow> error + (net_flex \<times> 'g)" where
  "test_case4 G template g0 =
    (let switch1 = map (\<lambda>(i, c). (i, True)) (net_switch template);
         bus1 = map (\<lambda>(i, r). (i, r\<lparr>max_vm_pu := 1.05, min_vm_pu := 0.95\<rparr>)) (net_bus template);
         line1 = map (\<lambda>(i, r). (i, r\<lparr>max_loading_percent := 100, c_nf_per_km := 0\<rparr>))
                   (net_line template);
         sgen1 = scale_all_but_last (net_sgen template)
     in and_then (set_controllable (net_load template) controllable_flags) (\<lambda>load1.
     let n1 = \<lparr>net_switch = switch1, net_bus = bus1, net_line = line1,
               net_load = load1, net_sgen = sgen1\<rparr>;
         dispatchable = filter (\<lambda>(i, r). controllable r) load1;
         number_of_dispatchable_loads = length dispatchable;
         n = number_of_dispatchable_loads + length sgen1;
         upto = loc_upto n (int number_of_dispatchable_loads - 1);
         from = loc_from n number_of_dispatchable_loads
     in and_then (set_list (new_column n) upto (map fst dispatchable)) (\<lambda>element1.
     let et1 = set_scalar (new_column n) upto ''load''
     in and_then (set_list (new_column n) upto (map (\<lambda>(i, r). p_mw r / 2) dispatchable)) (\<lambda>up1.
        and_then (set_list (new_column n) upto (map (\<lambda>(i, r). p_mw r / 2) dispatchable)) (\<lambda>down1.
     let type1 = set_scalar (new_column n) upto ''load'';
         pfs = map (\<lambda>(i, r). power_factor (q_mvar r) (p_mw r)) dispatchable
     in and_then (set_list (new_column n) upto (map (\<lambda>pf. [(''pf'', pf)]) pfs)) (\<lambda>info1.
        and_then (set_list element1 from (map fst sgen1)) (\<lambda>element2.
     let et2 = set_scalar et1 from ''sgen''
     in and_then (set_list up1 from (map (\<lambda>(i, r). 1.1 * p_mw r) sgen1)) (\<lambda>up2.
        and_then (set_list down1 from (map (\<lambda>(i, r). p_mw r) sgen1)) (\<lambda>down2.
     let number_of_pvs = (0::nat);
         number_of_box = (9::nat);
         types = replicate number_of_pvs ''PV'' @ replicate number_of_box ''Box''
     in and_then (set_list type1 from types) (\<lambda>type2.
     let extra_info0 = map (\<lambda>pf. [(''pf'', Some pf)]) (replicate number_of_pvs (0.9::real));
         (draws0, g1) = np_random G number_of_box (seed G 0);
         fuzz = map round3 draws0;
         extra_info =
           extra_info0 @ map (\<lambda>f. [(''q_min'', Some (- 1 - f)), (''q_max'', Some (1 + f))]) fuzz
     in and_then (set_list info1 from extra_info) (\<lambda>info2.
     let (draws1, g2) = np_random G n (seed G 1);
         up_cost1 = map (\<lambda>r. Some (90 + 20 * round3 r)) draws1;
         (draws2, g3) = np_random G n (seed G 2);
         down_cost1 = map (\<lambda>r. Some (100 - 20 * round3 r)) draws2;
         rows = zip et2 element2
     in and_then (traverse (device_cell n1 p_mw) rows) (\<lambda>p0.
     let p1 = negate_loads et2 p0
     in and_then (traverse (device_cell n1 q_mvar) rows) (\<lambda>q0.
     let q1 = negate_loads et2 q0
     in and_then (traverse (device_cell n1 bus) rows) (\<lambda>b1.
        Inr (net.extend n1
              \<lparr>flexibility =
                 \<lparr>element = element2, et = et2, up_quantity = up2, up_cost = up_cost1,
                  down_quantity = down2, down_cost = down_cost1, FPU_type = type2,
                  FPU_info = info2, p_setpoint = p1, q_setpoint = q1, bus_fpu = b1\<rparr>\<rparr>,
             g3)))))))))))))))"

subsection \<open>A concrete run\<close>

text \<open>
  A small generator (a linear congruence on the states \<open>0 .. 1999\<close>) and a network with the
  shape of the template, 18 loads and 9 static generators labelled from 0, on which the
  function can be run.
\<close>

definition demo :: "nat generator" where
  "demo = \<lparr>seed = (\<lambda>s. 17 * s + 3),
           next_double = (\<lambda>g. (real (g mod 2000) / 2000, (g * 37 + 11) mod 2000))\<rparr>"

definition sample_load :: "nat \<Rightarrow> load_row" where
  "sample_load i = \<lparr>bus = i + 1, p_mw = real i + 1, q_mvar = real i / 4, controllable = False\<rparr>"

definition sample_sgen :: "nat \<Rightarrow> device_row" where
  "sample_sgen i = \<lparr>bus = i + 3, p_mw = real i / 100, q_mvar = 0\<rparr>"

definition sample_template :: net where
  "sample_template =
     \<lparr>net_switch = [(0, False), (1, True)],
      net_bus = [(0, \<lparr>max_vm_pu = 2, min_vm_pu = 0\<rparr>)],
      net_line = [(0, \<lparr>max_loading_percent = 50, c_nf_per_km = 3\<rparr>)],
      net_load = map (\<lambda>i. (i, sample_load i)) [0..<18],
      net_sgen = map (\<lambda>i. (i, sample_sgen i)) [0..<9]\<rparr>"

section \<open>Properties\<close>

subsection \<open>Sequencing, slices and draws\<close>

lemma and_then_Inr_iff: "and_then m f = Inr y \<longleftrightarrow> (\<exists>x. m = Inr x \<and> f x = Inr y)"
  by (cases m) (simp_all add: and_then_def)

lemma and_then_Inr [simp]: "and_then (Inr x) f = f x"
  by (simp add: and_then_def)

lemma and_then_Inl [simp]: "and_then (Inl e) f = Inl e"
  by (simp add: and_then_def)

lemma traverse_Inr_length: "traverse f xs = Inr ys \<Longrightarrow> length ys = length xs"
  by (induction xs arbitrary: ys) (auto simp: and_then_Inr_iff)

lemma traverse_Inr_nth:
  "traverse f xs = Inr ys \<Longrightarrow> i < length xs \<Longrightarrow> f (xs ! i) = Inr (ys ! i)"
proof (induction xs arbitrary: ys i)
  case Nil
  then show ?case by simp
next
  case (Cons x xs)
  then show ?case by (cases i) (auto simp: and_then_Inr_iff)
qed

lemma traverse_total:
  "(\<And>x. x \<in> set xs \<Longrightarrow> \<exists>y. f x = Inr y) \<Longrightarrow> \<exists>ys. traverse f xs = Inr ys"
proof (induction xs)
  case Nil
  then show ?case by simp
next
  case (Cons x xs)
  then obtain y where "f x = Inr y" by auto
  moreover from Cons obtain ys where "traverse f xs = Inr ys" by auto
  ultimately show ?case by (simp add: and_then_def)
qed

lemma set_list_upto:
  "length vs = k \<Longrightarrow>
   set_list (new_column (k + m)) (loc_upto (k + m) (int k - 1)) vs
     = Inr (map Some vs @ replicate m None)"
  by (simp add: set_list_def loc_upto_def new_column_def min_def)

lemma set_scalar_upto:
  "set_scalar (new_column (k + m)) (loc_upto (k + m) (int k - 1)) v
     = replicate k (Some v) @ replicate m None"
  by (simp add: set_scalar_def loc_upto_def new_column_def min_def)

lemma set_list_from:
  "length xs = k \<Longrightarrow> length ys = m \<Longrightarrow>
   set_list (xs @ ys) (loc_from (k + m) k) vs
     = (if length vs = m then Inr (xs @ map Some vs) else Inl ValueError)"
  by (simp add: set_list_def loc_from_def min_def)

lemma set_scalar_from:
  "length xs = k \<Longrightarrow> length ys = m \<Longrightarrow>
   set_scalar (xs @ ys) (loc_from (k + m) k) v = xs @ replicate m (Some v)"
  by (simp add: set_scalar_def loc_from_def min_def)

lemma np_random_length: "length (fst (np_random G n g)) = n"
proof (induction n arbitrary: g)
  case 0
  then show ?case by simp
next
  case (Suc n)
  obtain x g1 where a: "next_double G g = (x, g1)" by (cases "next_double G g")
  obtain xs g2 where b: "np_random G n g1 = (xs, g2)" by (cases "np_random G n g1")
  from Suc [of g1] b have "length xs = n" by simp
  with a b show ?case by simp
qed

lemma length_scale_all_but_last: "length (scale_all_but_last sg) = length sg"
  by (simp add: scale_all_but_last_def)

lemma map_fst_scale_all_but_last: "map fst (scale_all_but_last sg) = map fst sg"
proof -
  have "map fst (scale_all_but_last sg)
      = map fst (take (length sg - 1) sg) @ map fst (drop (length sg - 1) sg)"
    unfolding scale_all_but_last_def by (simp add: case_prod_beta comp_def)
  also have "\<dots> = map fst (take (length sg - 1) sg @ drop (length sg - 1) sg)"
    by (simp only: map_append)
  also have "\<dots> = map fst sg" by (simp only: append_take_drop_id)
  finally show ?thesis .
qed

lemma count_zip_flags:
  "length xs = length cs \<Longrightarrow> length (filter snd (zip xs cs)) = length (filter (\<lambda>c. c) cs)"
  by (induction xs cs rule: list_induct2) auto

lemma dispatchable_length:
  assumes "length ld = 18"
  shows "length (filter (\<lambda>(i, r). controllable r)
            (map (\<lambda>((i, r), c). (i, r\<lparr>controllable := c\<rparr>)) (zip ld controllable_flags))) = 4"
proof -
  have "filter (\<lambda>(i, r). controllable r)
            (map (\<lambda>((i, r), c). (i, r\<lparr>controllable := c\<rparr>)) (zip ld controllable_flags))
        = map (\<lambda>((i, r), c). (i, r\<lparr>controllable := c\<rparr>)) (filter snd (zip ld controllable_flags))"
    by (simp add: filter_map comp_def case_prod_beta)
  moreover have "length ld = length controllable_flags"
    using assms by (simp add: controllable_flags_def)
  ultimately show ?thesis
    by (simp add: count_zip_flags) (simp add: controllable_flags_def)
qed


lemma length_controllable_flags: "length controllable_flags = 18"
  by (simp add: controllable_flags_def)

lemma getattr_net_extend: "getattr_net (net.extend n x) a = getattr_net n a"
  by (simp add: getattr_net_def net.defs)

lemma device_cell_extend: "device_cell (net.extend n x) col = device_cell n col"
  by (rule ext) (simp add: device_cell_def getattr_net_extend split: prod.splits option.splits)



lemma test_case4_lengths:
  assumes "test_case4 G tpl g0 = Inr (N, g')"
  shows "length (net_load tpl) = 18" and "length (net_sgen tpl) = 9"
  using assms
  by (simp_all add: test_case4_def Let_def set_controllable_def and_then_Inr_iff set_list_upto
      set_scalar_upto set_list_from set_scalar_from length_scale_all_but_last case_prod_beta
      length_controllable_flags split: if_splits)

lemma test_case4_eq:
  fixes G :: "'g generator" and tpl :: net
  defines "load1 \<equiv> map (\<lambda>((i, r), c). (i, r\<lparr>controllable := c\<rparr>)) (zip (net_load tpl) controllable_flags)"
  defines "sgen1 \<equiv> scale_all_but_last (net_sgen tpl)"
  defines "n1 \<equiv> \<lparr>net_switch = map (\<lambda>(i, c). (i, True)) (net_switch tpl),
            net_bus = map (\<lambda>(i, r). (i, r\<lparr>max_vm_pu := 1.05, min_vm_pu := 0.95\<rparr>)) (net_bus tpl),
            net_line = map (\<lambda>(i, r). (i, r\<lparr>max_loading_percent := 100, c_nf_per_km := 0\<rparr>)) (net_line tpl),
            net_load = load1, net_sgen = sgen1\<rparr>"
  defines "D1 \<equiv> filter (\<lambda>(i, r). controllable r) load1"
  defines "E \<equiv> map Some (map fst D1 @ map fst sgen1)"
  defines "T \<equiv> replicate (length D1) (Some ''load'') @ replicate 9 (Some ''sgen'')"
  defines "Fl \<equiv> (\<lambda>p0 q0 b1.
     \<lparr>element = E, et = T,
      up_quantity = map Some (map (\<lambda>(i, r). p_mw r / 2) D1 @ map (\<lambda>(i, r). 1.1 * p_mw r) sgen1),
      up_cost = map (\<lambda>r. Some (90 + 20 * round3 r)) (fst (np_random G (length D1 + 9) (seed G 1))),
      down_quantity = map Some (map (\<lambda>(i, r). p_mw r / 2) D1 @ map (\<lambda>(i, r). p_mw r) sgen1),
      down_cost = map (\<lambda>r. Some (100 - 20 * round3 r)) (fst (np_random G (length D1 + 9) (seed G 2))),
      FPU_type = replicate (length D1) (Some ''load'') @ replicate 9 (Some ''Box''),
      FPU_info = map Some (map (\<lambda>(i, r). [(''pf'', power_factor (q_mvar r) (p_mw r))]) D1
          @ map (\<lambda>f. [(''q_min'', Some (- 1 - f)), (''q_max'', Some (1 + f))])
              (map round3 (fst (np_random G 9 (seed G 0))))),
      p_setpoint = negate_loads T p0, q_setpoint = negate_loads T q0, bus_fpu = b1\<rparr>)"
  assumes len: "length (net_load tpl) = 18" "length (net_sgen tpl) = 9"
  shows "test_case4 G tpl g0 =
      and_then (traverse (device_cell n1 p_mw) (zip T E)) (\<lambda>p0.
      and_then (traverse (device_cell n1 q_mvar) (zip T E)) (\<lambda>q0.
      and_then (traverse (device_cell n1 bus) (zip T E)) (\<lambda>b1.
        Inr (net.extend n1 \<lparr>flexibility = Fl p0 q0 b1\<rparr>,
             snd (np_random G (length D1 + 9) (seed G 2))))))"
  unfolding Fl_def T_def E_def D1_def n1_def sgen1_def load1_def test_case4_def
  using len
  by (simp add: Let_def set_controllable_def set_list_upto
      set_scalar_upto set_list_from set_scalar_from length_scale_all_but_last case_prod_beta
      length_controllable_flags np_random_length comp_def)

lemma test_case4_InrD:
  assumes run: "test_case4 G tpl g0 = Inr (N, g')"
  defines "F \<equiv> flexibility N"
  defines "D \<equiv> filter (\<lambda>(i, r). controllable r) (net_load N)"
  shows "length (net_load tpl) = 18 \<and> length (net_sgen tpl) = 9
    \<and> net_load N = map (\<lambda>((i, r), c). (i, r\<lparr>controllable := c\<rparr>)) (zip (net_load tpl) controllable_flags)
    \<and> net_sgen N = scale_all_but_last (net_sgen tpl)
    \<and> length D = 4
    \<and> element F = map Some (map fst D @ map fst (net_sgen N))
    \<and> et F = replicate 4 (Some ''load'') @ replicate 9 (Some ''sgen'')
    \<and> up_quantity F = map Some (map (\<lambda>(i, r). p_mw r / 2) D @ map (\<lambda>(i, r). 1.1 * p_mw r) (net_sgen N))
    \<and> down_quantity F = map Some (map (\<lambda>(i, r). p_mw r / 2) D @ map (\<lambda>(i, r). p_mw r) (net_sgen N))
    \<and> FPU_type F = replicate 4 (Some ''load'') @ replicate 9 (Some ''Box'')
    \<and> FPU_info F = map Some (map (\<lambda>(i, r). [(''pf'', power_factor (q_mvar r) (p_mw r))]) D
          @ map (\<lambda>f. [(''q_min'', Some (- 1 - f)), (''q_max'', Some (1 + f))])
              (map round3 (fst (np_random G 9 (seed G 0)))))
    \<and> up_cost F = map (\<lambda>r. Some (90 + 20 * round3 r)) (fst (np_random G 13 (seed G 1)))
    \<and> down_cost F = map (\<lambda>r. Some (100 - 20 * round3 r)) (fst (np_random G 13 (seed G 2)))
    \<and> (\<exists>p0. traverse (device_cell N p_mw) (zip (et F) (element F)) = Inr p0
          \<and> p_setpoint F = negate_loads (et F) p0)
    \<and> (\<exists>q0. traverse (device_cell N q_mvar) (zip (et F) (element F)) = Inr q0
          \<and> q_setpoint F = negate_loads (et F) q0)
    \<and> traverse (device_cell N bus) (zip (et F) (element F)) = Inr (bus_fpu F)"
proof -
  note len = test_case4_lengths [OF run]
  define load1 where
    "load1 = map (\<lambda>((i, r), c). (i, r\<lparr>controllable := c\<rparr>)) (zip (net_load tpl) controllable_flags)"
  define sgen1 where "sgen1 = scale_all_but_last (net_sgen tpl)"
  define n1 where
    "n1 = \<lparr>net_switch = map (\<lambda>(i, c). (i, True)) (net_switch tpl),
            net_bus = map (\<lambda>(i, r). (i, r\<lparr>max_vm_pu := 1.05, min_vm_pu := 0.95\<rparr>)) (net_bus tpl),
            net_line = map (\<lambda>(i, r). (i, r\<lparr>max_loading_percent := 100, c_nf_per_km := 0\<rparr>)) (net_line tpl),
            net_load = load1, net_sgen = sgen1\<rparr>"
  define D1 where "D1 = filter (\<lambda>(i, r). controllable r) load1"
  define E where "E = map Some (map fst D1 @ map fst sgen1)"
  define T where "T = replicate (length D1) (Some ''load'') @ replicate 9 (Some ''sgen'')"
  define Fl where "Fl = (\<lambda>p0 q0 b1.
     \<lparr>element = E, et = T,
      up_quantity = map Some (map (\<lambda>(i, r). p_mw r / 2) D1 @ map (\<lambda>(i, r). 1.1 * p_mw r) sgen1),
      up_cost = map (\<lambda>r. Some (90 + 20 * round3 r)) (fst (np_random G (length D1 + 9) (seed G 1))),
      down_quantity = map Some (map (\<lambda>(i, r). p_mw r / 2) D1 @ map (\<lambda>(i, r). p_mw r) sgen1),
      down_cost = map (\<lambda>r. Some (100 - 20 * round3 r)) (fst (np_random G (length D1 + 9) (seed G 2))),
      FPU_type = replicate (length D1) (Some ''load'') @ replicate 9 (Some ''Box''),
      FPU_info = map Some (map (\<lambda>(i, r). [(''pf'', power_factor (q_mvar r) (p_mw r))]) D1
          @ map (\<lambda>f. [(''q_min'', Some (- 1 - f)), (''q_max'', Some (1 + f))])
              (map round3 (fst (np_random G 9 (seed G 0))))),
      p_setpoint = negate_loads T p0, q_setpoint = negate_loads T q0, bus_fpu = b1\<rparr>)"
  have eq: "test_case4 G tpl g0 =
      and_then (traverse (device_cell n1 p_mw) (zip T E)) (\<lambda>p0.
      and_then (traverse (device_cell n1 q_mvar) (zip T E)) (\<lambda>q0.
      and_then (traverse (device_cell n1 bus) (zip T E)) (\<lambda>b1.
        Inr (net.extend n1 \<lparr>flexibility = Fl p0 q0 b1\<rparr>,
             snd (np_random G (length D1 + 9) (seed G 2))))))"
    unfolding Fl_def T_def E_def D1_def n1_def sgen1_def load1_def
    by (rule test_case4_eq [OF len])
  from run obtain p0 q0 b1 where
    tp: "traverse (device_cell n1 p_mw) (zip T E) = Inr p0" and
    tq: "traverse (device_cell n1 q_mvar) (zip T E) = Inr q0" and
    tb: "traverse (device_cell n1 bus) (zip T E) = Inr b1" and
    N: "N = net.extend n1 \<lparr>flexibility = Fl p0 q0 b1\<rparr>"
    unfolding eq and_then_Inr_iff by auto
  have NL: "net_load N = load1" and NS: "net_sgen N = sgen1" and NF: "F = Fl p0 q0 b1"
    unfolding N F_def n1_def by (simp_all add: net.defs)
  have DD: "D = D1" unfolding D_def D1_def NL ..
  have k: "length D1 = 4" unfolding D1_def load1_def using len(1) by (rule dispatchable_length)
  show ?thesis
    unfolding NL NS DD NF unfolding N device_cell_extend
    using len tp tq tb k
    by (simp add: Fl_def E_def T_def load1_def sgen1_def)
qed

subsection \<open>Looking up a row by its label\<close>

lemma loc_unique:
  "distinct (map fst t) \<Longrightarrow> (k, r) \<in> set t \<Longrightarrow> filter (\<lambda>(i, r). i = k) t = [(k, r)]"
proof (induction t)
  case Nil
  then show ?case by simp
next
  case (Cons a t)
  show ?case
  proof (cases "fst a = k")
    case True
    with Cons.prems have "k \<notin> fst ` set t" by auto
    then have "filter (\<lambda>(i, r). i = k) t = []"
      by (auto simp: filter_empty_conv image_iff)
    moreover from True Cons.prems \<open>k \<notin> fst ` set t\<close> have "a = (k, r)"
      by (auto simp: image_iff)
    ultimately show ?thesis by simp
  next
    case False
    with Cons show ?thesis by (auto simp: case_prod_beta)
  qed
qed

lemma loc_total:
  "distinct (map fst t) \<Longrightarrow> (k, r) \<in> set t \<Longrightarrow> loc t k = Inr r"
  by (simp add: loc_def loc_unique)

lemma loc_InrD: "loc t k = Inr r \<Longrightarrow> filter (\<lambda>(i, r). i = k) t = [(k, r)]"
proof -
  assume a: "loc t k = Inr r"
  then obtain i where f: "filter (\<lambda>(i, r). i = k) t = [(i, r)]"
    by (auto simp: loc_def split: list.splits)
  then have "(i, r) \<in> set (filter (\<lambda>(i, r). i = k) t)" by simp
  then have "i = k" by simp
  with f show ?thesis by simp
qed

lemma filter_label_map:
  "filter (\<lambda>(i, r). i = k) (map (\<lambda>(i, r). (i, f r)) t)
     = map (\<lambda>(i, r). (i, f r)) (filter (\<lambda>(i, r). i = k) t)"
  by (induction t) auto

lemma loc_map:
  "loc (map (\<lambda>(i, r). (i, f r)) t) k = Inr v \<longleftrightarrow> (\<exists>r. loc t k = Inr r \<and> v = f r)"
  unfolding loc_def filter_label_map
  by (cases "filter (\<lambda>(i, r). i = k) t") (auto split: list.splits)

lemma map_fst_set_controllable:
  "length ld = length cs \<Longrightarrow>
   map fst (map (\<lambda>((i, r), c). (i, r\<lparr>controllable := c\<rparr>)) (zip ld cs)) = map fst ld"
  by (induction ld cs rule: list_induct2) auto

lemma getattr_net_load:
  "getattr_net n ''load'' = Inr (map (\<lambda>(i, r). (i, as_device r)) (net_load n))"
  by (simp add: getattr_net_def)

lemma getattr_net_sgen: "getattr_net n ''sgen'' = Inr (net_sgen n)"
  by (simp add: getattr_net_def)

lemma device_cell_total:
  assumes "getattr_net n a = Inr t" and "distinct (map fst t)" and "e \<in> fst ` set t"
  shows "\<exists>v. device_cell n col (Some a, Some e) = Inr v"
proof -
  from assms(3) obtain r where "(e, r) \<in> set t" by auto
  with assms(2) have "loc t e = Inr r" by (rule loc_total)
  with assms(1) show ?thesis by (simp add: device_cell_def)
qed


subsection \<open>The function returns on a network shaped like the template\<close>

lemma rows_cases:
  assumes "x \<in> set (zip (replicate (length D) (Some a) @ replicate m (Some b))
                        (map Some (map fst D @ map fst S)))"
  shows "(\<exists>e \<in> fst ` set D. x = (Some a, Some e)) \<or> (\<exists>e \<in> fst ` set S. x = (Some b, Some e))"
proof -
  have "zip (replicate (length D) (Some a) @ replicate m (Some b)) (map Some (map fst D @ map fst S))
      = zip (replicate (length D) (Some a)) (map Some (map fst D))
        @ zip (replicate m (Some b)) (map Some (map fst S))"
    by simp
  with assms show ?thesis
    by (auto simp: set_zip)
qed

lemma test_case4_returns:
  assumes len: "length (net_load tpl) = 18" "length (net_sgen tpl) = 9"
    and dl: "distinct (map fst (net_load tpl))"
    and ds: "distinct (map fst (net_sgen tpl))"
  shows "\<exists>N g'. test_case4 G tpl g0 = Inr (N, g')"
proof -
  define load1 where
    "load1 = map (\<lambda>((i, r), c). (i, r\<lparr>controllable := c\<rparr>)) (zip (net_load tpl) controllable_flags)"
  define sgen1 where "sgen1 = scale_all_but_last (net_sgen tpl)"
  define n1 where
    "n1 = \<lparr>net_switch = map (\<lambda>(i, c). (i, True)) (net_switch tpl),
            net_bus = map (\<lambda>(i, r). (i, r\<lparr>max_vm_pu := 1.05, min_vm_pu := 0.95\<rparr>)) (net_bus tpl),
            net_line = map (\<lambda>(i, r). (i, r\<lparr>max_loading_percent := 100, c_nf_per_km := 0\<rparr>)) (net_line tpl),
            net_load = load1, net_sgen = sgen1\<rparr>"
  define D1 where "D1 = filter (\<lambda>(i, r). controllable r) load1"
  define E where "E = map Some (map fst D1 @ map fst sgen1)"
  define T where "T = replicate (length D1) (Some ''load'') @ replicate 9 (Some ''sgen'')"
  have dl1: "distinct (map fst load1)"
    unfolding load1_def using dl len(1)
    by (simp only: map_fst_set_controllable length_controllable_flags)
  have ds1: "distinct (map fst sgen1)"
    unfolding sgen1_def using ds by (simp only: map_fst_scale_all_but_last)
  have gl: "getattr_net n1 ''load'' = Inr (map (\<lambda>(i, r). (i, as_device r)) load1)"
    by (simp add: getattr_net_load n1_def)
  have gs: "getattr_net n1 ''sgen'' = Inr sgen1"
    by (simp add: getattr_net_sgen n1_def)
  have dl2: "distinct (map fst (map (\<lambda>(i, r). (i, as_device r)) load1))"
    using dl1 by (simp add: comp_def case_prod_beta)
  have cell: "\<exists>v. device_cell n1 col x = Inr v" if "x \<in> set (zip T E)" for x and col :: "device_row \<Rightarrow> 'v"
  proof -
    from that consider e where "e \<in> fst ` set D1" "x = (Some ''load'', Some e)"
      | e where "e \<in> fst ` set sgen1" "x = (Some ''sgen'', Some e)"
      unfolding T_def E_def using rows_cases [of x D1 "''load''" 9 "''sgen''" sgen1] by blast
    then show ?thesis
    proof cases
      case 1
      then have "e \<in> fst ` set (map (\<lambda>(i, r). (i, as_device r)) load1)"
        by (force simp: D1_def)
      with gl dl2 show ?thesis unfolding 1(2) by (rule device_cell_total)
    next
      case 2
      with gs ds1 show ?thesis by (simp add: device_cell_total)
    qed
  qed
  from cell obtain p0 where "traverse (device_cell n1 p_mw) (zip T E) = Inr p0"
    using traverse_total [of "zip T E" "device_cell n1 p_mw"] by blast
  moreover from cell obtain q0 where "traverse (device_cell n1 q_mvar) (zip T E) = Inr q0"
    using traverse_total [of "zip T E" "device_cell n1 q_mvar"] by blast
  moreover from cell obtain b1 where "traverse (device_cell n1 bus) (zip T E) = Inr b1"
    using traverse_total [of "zip T E" "device_cell n1 bus"] by blast
  ultimately show ?thesis
    using test_case4_eq [OF len, of G g0]
    unfolding T_def E_def D1_def n1_def sgen1_def load1_def
    by simp
qed

lemma sample_returns: "\<exists>N g'. test_case4 demo sample_template g0 = Inr (N, g')"
  by (rule test_case4_returns) (simp_all add: sample_template_def comp_def)

lemma sample_run:
  "test_case4 demo sample_template g0
     = Inr (fst (projr (test_case4 demo sample_template g0)),
            snd (projr (test_case4 demo sample_template g0)))"
  using sample_returns [of g0] by auto

subsection \<open>What a run that returns has built\<close>

lemma run_facts:
  assumes run: "test_case4 G tpl g0 = Inr (N, g')"
  defines "F \<equiv> flexibility N"
  defines "D \<equiv> filter (\<lambda>(i, r). controllable r) (net_load N)"
  shows "length (net_load tpl) = 18" and "length (net_sgen tpl) = 9"
    and "net_load N = map (\<lambda>((i, r), c). (i, r\<lparr>controllable := c\<rparr>)) (zip (net_load tpl) controllable_flags)"
    and "net_sgen N = scale_all_but_last (net_sgen tpl)"
    and "length D = 4"
    and "element F = map Some (map fst D @ map fst (net_sgen N))"
    and "et F = replicate 4 (Some ''load'') @ replicate 9 (Some ''sgen'')"
    and "up_quantity F = map Some (map (\<lambda>(i, r). p_mw r / 2) D @ map (\<lambda>(i, r). 1.1 * p_mw r) (net_sgen N))"
    and "down_quantity F = map Some (map (\<lambda>(i, r). p_mw r / 2) D @ map (\<lambda>(i, r). p_mw r) (net_sgen N))"
    and "FPU_type F = replicate 4 (Some ''load'') @ replicate 9 (Some ''Box'')"
    and "FPU_info F = map Some (map (\<lambda>(i, r). [(''pf'', power_factor (q_mvar r) (p_mw r))]) D
          @ map (\<lambda>f. [(''q_min'', Some (- 1 - f)), (''q_max'', Some (1 + f))])
              (map round3 (fst (np_random G 9 (seed G 0)))))"
    and "up_cost F = map (\<lambda>r. Some (90 + 20 * round3 r)) (fst (np_random G 13 (seed G 1)))"
    and "down_cost F = map (\<lambda>r. Some (100 - 20 * round3 r)) (fst (np_random G 13 (seed G 2)))"
    and "\<exists>p0. traverse (device_cell N p_mw) (zip (et F) (element F)) = Inr p0
          \<and> p_setpoint F = negate_loads (et F) p0"
    and "\<exists>q0. traverse (device_cell N q_mvar) (zip (et F) (element F)) = Inr q0
          \<and> q_setpoint F = negate_loads (et F) q0"
    and "traverse (device_cell N bus) (zip (et F) (element F)) = Inr (bus_fpu F)"
  using test_case4_InrD [OF run, folded F_def D_def]
  apply -
  apply (elim conjE, assumption)+
  done

lemma length_negate_loads: "length (negate_loads ets vs) = min (length ets) (length vs)"
  by (simp add: negate_loads_def)

lemma column_lengths:
  assumes run: "test_case4 G template g0 = Inr (N, g')"
  defines "F \<equiv> flexibility N"
  shows "length (element F) = 13" "length (et F) = 13"
    "length (up_quantity F) = 13" "length (up_cost F) = 13"
    "length (down_quantity F) = 13" "length (down_cost F) = 13"
    "length (FPU_type F) = 13" "length (FPU_info F) = 13"
    "length (p_setpoint F) = 13" "length (q_setpoint F) = 13" "length (bus_fpu F) = 13"
proof -
  note D = run_facts [OF run, folded F_def]
  from D(4) D(2) have sg: "length (net_sgen N) = 9"
    by (simp add: length_scale_all_but_last)
  from D(6) D(5) sg show e: "length (element F) = 13" by simp
  from D(7) show t: "length (et F) = 13" by simp
  from D(8) D(5) sg show "length (up_quantity F) = 13" by simp
  from D(12) show "length (up_cost F) = 13" by (simp add: np_random_length)
  from D(9) D(5) sg show "length (down_quantity F) = 13" by simp
  from D(13) show "length (down_cost F) = 13" by (simp add: np_random_length)
  from D(10) show "length (FPU_type F) = 13" by simp
  from D(11) D(5) show "length (FPU_info F) = 13" by (simp add: np_random_length)
  from D(14) obtain p0 where "traverse (device_cell N p_mw) (zip (et F) (element F)) = Inr p0"
    and "p_setpoint F = negate_loads (et F) p0" by blast
  with e t show "length (p_setpoint F) = 13"
    by (auto simp: length_negate_loads dest: traverse_Inr_length)
  from D(15) obtain q0 where "traverse (device_cell N q_mvar) (zip (et F) (element F)) = Inr q0"
    and "q_setpoint F = negate_loads (et F) q0" by blast
  with e t show "length (q_setpoint F) = 13"
    by (auto simp: length_negate_loads dest: traverse_Inr_length)
  from D(16) e t show "length (bus_fpu F) = 13"
    by (auto dest: traverse_Inr_length)
qed

subsection \<open>Draws and rounding\<close>

lemma np_random_unit:
  assumes unit: "\<And>g. 0 \<le> fst (next_double G g) \<and> fst (next_double G g) < 1"
  shows "x \<in> set (fst (np_random G n g)) \<Longrightarrow> 0 \<le> x \<and> x < 1"
proof (induction n arbitrary: g)
  case 0
  then show ?case by simp
next
  case (Suc n)
  obtain y g1 where a: "next_double G g = (y, g1)" by (cases "next_double G g")
  obtain ys g2 where b: "np_random G n g1 = (ys, g2)" by (cases "np_random G n g1")
  from Suc.prems a b have "x = y \<or> x \<in> set ys" by simp
  then show ?case
  proof
    assume "x = y"
    with unit [of g] a show ?thesis by simp
  next
    assume "x \<in> set ys"
    with b have "x \<in> set (fst (np_random G n g1))" by simp
    then show ?thesis by (rule Suc.IH)
  qed
qed

lemma rint_bounds: "\<lfloor>x\<rfloor> \<le> rint x \<and> rint x \<le> \<lfloor>x\<rfloor> + 1"
  by (simp add: rint_def Let_def)

lemma round3_unit:
  assumes "0 \<le> x" and "x < 1"
  shows "0 \<le> round3 x \<and> round3 x \<le> 1"
proof -
  from assms have "0 \<le> x * 1000" and "x * 1000 < 1000" by simp_all
  then have "0 \<le> \<lfloor>x * 1000\<rfloor>" and "\<lfloor>x * 1000\<rfloor> < 1000"
    by (simp_all add: floor_less_iff)
  with rint_bounds [of "x * 1000"] have "0 \<le> rint (x * 1000)" and "rint (x * 1000) \<le> 1000"
    by linarith+
  then have "0 \<le> (of_int (rint (x * 1000)) :: real)" and "(of_int (rint (x * 1000)) :: real) \<le> 1000"
    by simp_all
  then show ?thesis by (simp add: round3_def)
qed

lemma demo_unit: "0 \<le> fst (next_double demo g) \<and> fst (next_double demo g) < 1"
  by (simp add: demo_def)

subsection \<open>Row by row\<close>

lemma device_cell_InrD:
  "device_cell n col (Some a, Some e) = Inr v \<Longrightarrow>
   \<exists>t r. getattr_net n a = Inr t \<and> loc t e = Inr r \<and> v = col r"
  by (auto simp: device_cell_def and_then_Inr_iff)

lemma negate_loads_nth:
  "i < length ets \<Longrightarrow> i < length vs \<Longrightarrow>
   negate_loads ets vs ! i = (if ets ! i = Some ''load'' then - (vs ! i) else vs ! i)"
  by (simp add: negate_loads_def)

lemma load_rows:
  assumes run: "test_case4 G tpl g0 = Inr (N, g')" and i: "i < 4"
  defines "F \<equiv> flexibility N"
  defines "D \<equiv> filter (\<lambda>(i, r). controllable r) (net_load N)"
  shows "et F ! i = Some ''load''"
    and "element F ! i = Some (fst (D ! i))"
    and "up_quantity F ! i = Some (p_mw (snd (D ! i)) / 2)"
    and "down_quantity F ! i = Some (p_mw (snd (D ! i)) / 2)"
  using i run_facts(5) [OF run]
  unfolding F_def D_def
  by (simp_all add: run_facts(6,7,8,9) [OF run] nth_append case_prod_beta)

lemma sgen_rows:
  assumes run: "test_case4 G tpl g0 = Inr (N, g')" and i: "4 \<le> i" "i < 13"
  defines "F \<equiv> flexibility N"
  shows "et F ! i = Some ''sgen''"
    and "element F ! i = Some (fst (net_sgen N ! (i - 4)))"
    and "up_quantity F ! i = Some (1.1 * p_mw (snd (net_sgen N ! (i - 4))))"
    and "down_quantity F ! i = Some (p_mw (snd (net_sgen N ! (i - 4))))"
    and "FPU_info F ! i =
          Some [(''q_min'', Some (- 1 - round3 (fst (np_random G 9 (seed G 0)) ! (i - 4)))),
                (''q_max'', Some (1 + round3 (fst (np_random G 9 (seed G 0)) ! (i - 4))))]"
proof -
  have sg: "length (net_sgen N) = 9"
    using run_facts(2,4) [OF run] by (simp add: length_scale_all_but_last)
  from i have j: "i - 4 < 9" by simp
  note D = run_facts(5) [OF run]
  from i D show "et F ! i = Some ''sgen''"
    unfolding F_def by (simp add: run_facts(7) [OF run] nth_append)
  from i D sg j show "element F ! i = Some (fst (net_sgen N ! (i - 4)))"
    unfolding F_def by (simp add: run_facts(6) [OF run] nth_append)
  from i D sg j show "up_quantity F ! i = Some (1.1 * p_mw (snd (net_sgen N ! (i - 4))))"
    unfolding F_def by (simp add: run_facts(8) [OF run] nth_append case_prod_beta)
  from i D sg j show "down_quantity F ! i = Some (p_mw (snd (net_sgen N ! (i - 4))))"
    unfolding F_def by (simp add: run_facts(9) [OF run] nth_append case_prod_beta)
  from i D j show "FPU_info F ! i =
          Some [(''q_min'', Some (- 1 - round3 (fst (np_random G 9 (seed G 0)) ! (i - 4)))),
                (''q_max'', Some (1 + round3 (fst (np_random G 9 (seed G 0)) ! (i - 4))))]"
    unfolding F_def by (simp add: run_facts(11) [OF run] nth_append np_random_length)
qed

lemma row_lookup:
  assumes run: "test_case4 G tpl g0 = Inr (N, g')" and i: "i < 13"
  defines "F \<equiv> flexibility N"
  shows "\<exists>a e t r. et F ! i = Some a \<and> element F ! i = Some e
      \<and> getattr_net N a = Inr t \<and> loc t e = Inr r
      \<and> p_setpoint F ! i = (if a = ''load'' then - p_mw r else p_mw r)
      \<and> q_setpoint F ! i = (if a = ''load'' then - q_mvar r else q_mvar r)
      \<and> bus_fpu F ! i = bus r"
proof -
  note L = column_lengths [OF run, folded F_def]
  obtain a where a: "et F ! i = Some a"
    using load_rows(1) [OF run, of i] sgen_rows(1) [OF run, of i] i
    unfolding F_def by (cases "i < 4") auto
  obtain e where e: "element F ! i = Some e"
    using load_rows(2) [OF run, of i] sgen_rows(2) [OF run, of i] i
    unfolding F_def by (cases "i < 4") auto
  from i L have z: "zip (et F) (element F) ! i = (Some a, Some e)" and
    zl: "i < length (zip (et F) (element F))"
    by (simp_all add: a e)
  from run_facts(14) [OF run, folded F_def] obtain p0 where
    p0: "traverse (device_cell N p_mw) (zip (et F) (element F)) = Inr p0"
    and ps: "p_setpoint F = negate_loads (et F) p0" by blast
  from run_facts(15) [OF run, folded F_def] obtain q0 where
    q0: "traverse (device_cell N q_mvar) (zip (et F) (element F)) = Inr q0"
    and qs: "q_setpoint F = negate_loads (et F) q0" by blast
  note b0 = run_facts(16) [OF run, folded F_def]
  from traverse_Inr_nth [OF p0 zl] z have cp: "device_cell N p_mw (Some a, Some e) = Inr (p0 ! i)"
    by simp
  from traverse_Inr_nth [OF q0 zl] z have cq: "device_cell N q_mvar (Some a, Some e) = Inr (q0 ! i)"
    by simp
  from traverse_Inr_nth [OF b0 zl] z have cb: "device_cell N bus (Some a, Some e) = Inr (bus_fpu F ! i)"
    by simp
  from device_cell_InrD [OF cp] obtain t r where
    t: "getattr_net N a = Inr t" and r: "loc t e = Inr r" and pv: "p0 ! i = p_mw r" by blast
  from device_cell_InrD [OF cq] t r have qv: "q0 ! i = q_mvar r" by auto
  from device_cell_InrD [OF cb] t r have bv: "bus_fpu F ! i = bus r" by auto
  from traverse_Inr_length [OF p0] traverse_Inr_length [OF q0] zl
  have "i < length p0" "i < length q0" by simp_all
  with i L a pv qv ps qs
  have "p_setpoint F ! i = (if a = ''load'' then - p_mw r else p_mw r)"
    and "q_setpoint F ! i = (if a = ''load'' then - q_mvar r else q_mvar r)"
    by (simp_all add: negate_loads_nth)
  with a e t r bv show ?thesis by blast
qed

section \<open>The claims\<close>

text \<open>
  C1. The flexibility table of a network returned by \<open>test_case4\<close> has exactly 13 rows:
  one for each of the 4 loads whose \<open>controllable\<close> flag is set, and one for each of the 9
  static generators. (A template with another number of static generators makes the
  function raise, so every returned network has 9.)
\<close>

theorem flexibility_row_count:
  assumes "test_case4 G template g0 = Inr (N, g')"
  shows "nrows (flexibility N) = 13
    \<and> length (filter (\<lambda>(i, r). controllable r) (net_load N)) = 4
    \<and> length (net_sgen template) = 9
    \<and> length (net_sgen N) = 9
    \<and> nrows (flexibility N)
        = length (filter (\<lambda>(i, r). controllable r) (net_load N)) + length (net_sgen N)"
  using run_facts(2,4,5) [OF assms] column_lengths(1) [OF assms]
  by (simp add: nrows_def length_scale_all_but_last)

theorem flexibility_row_count_witness:
  "\<not> isl (test_case4 demo sample_template 0)
   \<and> nrows (flexibility (fst (projr (test_case4 demo sample_template 0)))) = 13
   \<and> length (filter (\<lambda>(i, r). controllable r)
        (net_load (fst (projr (test_case4 demo sample_template 0))))) = 4
   \<and> length (net_sgen sample_template) = 9"
  using flexibility_row_count [OF sample_run [of 0]] sample_returns [of 0]
  by auto

text \<open>
  C2. Two runs of \<open>test_case4\<close> give the same flexibility table, cell for cell. What can
  differ between two runs is the state in which they find the global random generator;
  the function seeds the generator (with 0, 1 and 2) before each of its three draws, so
  the state it starts from has no influence. The whole result is the same: the table,
  the rest of the network, the exception if there is one, and the state the generator
  is left in.
\<close>

theorem rerun_identical:
  "test_case4 G template g1 = test_case4 G template g2"
  by (simp add: test_case4_def)

text \<open>
  C3. In every row of the returned flexibility table \<open>up_cost\<close> is \<open>90 + 20 * r\<close> and
  \<open>down_cost\<close> is \<open>100 - 20 * r'\<close>, for draws from \<open>[0, 1)\<close> rounded to three decimals;
  so \<open>up_cost\<close> lies in \<open>[90, 110]\<close> and \<open>down_cost\<close> in \<open>[80, 100]\<close>. That the generator
  draws from \<open>[0, 1)\<close> is numpy's contract and a hypothesis here.
\<close>

theorem cost_bounds:
  assumes run: "test_case4 G template g0 = Inr (N, g')"
    and unit: "\<And>g. 0 \<le> fst (next_double G g) \<and> fst (next_double G g) < 1"
    and i: "i < nrows (flexibility N)"
  shows "\<exists>r r'. 0 \<le> r \<and> r < 1 \<and> 0 \<le> r' \<and> r' < 1
      \<and> up_cost (flexibility N) ! i = Some (90 + 20 * round3 r)
      \<and> down_cost (flexibility N) ! i = Some (100 - 20 * round3 r')
      \<and> 90 \<le> 90 + 20 * round3 r \<and> 90 + 20 * round3 r \<le> 110
      \<and> 80 \<le> 100 - 20 * round3 r' \<and> 100 - 20 * round3 r' \<le> 100"
proof -
  from i column_lengths(1) [OF run] have i13: "i < 13" by (simp add: nrows_def)
  define r where "r = fst (np_random G 13 (seed G 1)) ! i"
  define r' where "r' = fst (np_random G 13 (seed G 2)) ! i"
  from i13 have "r \<in> set (fst (np_random G 13 (seed G 1)))"
    and "r' \<in> set (fst (np_random G 13 (seed G 2)))"
    by (simp_all add: r_def r'_def np_random_length)
  then have u: "0 \<le> r \<and> r < 1" "0 \<le> r' \<and> r' < 1"
    using np_random_unit [of G] unit by blast+
  then have b: "0 \<le> round3 r \<and> round3 r \<le> 1" "0 \<le> round3 r' \<and> round3 r' \<le> 1"
    by (simp_all add: round3_unit)
  from i13 have "up_cost (flexibility N) ! i = Some (90 + 20 * round3 r)"
    and "down_cost (flexibility N) ! i = Some (100 - 20 * round3 r')"
    by (simp_all add: run_facts(12,13) [OF run] r_def r'_def np_random_length)
  with u b show ?thesis by (intro exI [of _ r] exI [of _ r']) simp
qed

end
